theory Spec2Isabelle
  imports Main "HOL-Library.Word"
begin

section \<open>Low-level modem power control (drivers/modem/pinephone/power.h)\<close>

subsection \<open>Data model\<close>

text \<open>The two enum classes of \<open>Modem::Power\<close>. As in the source, both have members
  named \<open>OFF\<close> and \<open>ON\<close>; they are told apart by their qualified names
  \<open>Requested.OFF\<close>, \<open>State.OFF\<close> and so on.\<close>

datatype Requested = DONT_CARE | OFF | ON

datatype State = UNKNOWN | OFF | STARTING_UP | ON | SHUTTING_DOWN

text \<open>The six \<open>Pin_control\<close> connections of the source, by their member names.\<close>

datatype Pin = Pin_battery | Pin_dtr | Pin_enable | Pin_host_ready | Pin_pwrkey | Pin_reset

text \<open>Everything the controller does to its environment, in the order it does it:
  a write to a control pin (\<open>_pin_x.state(b)\<close>), a blocking delay
  (\<open>_delayer.msleep(ms)\<close>) and a log line (\<open>log(...)\<close>).\<close>

datatype Event = Pin_write Pin bool | Msleep nat | Log string

text \<open>The object state. The two counters are C++ \<open>unsigned\<close>, hence 32-bit words
  whose increment wraps. \<open>status_reads\<close> counts the reads of \<open>_pin_status\<close> made so
  far: the status line is an input, given as a function from the number of the read to
  the level read, so that every sequence of readings is covered. \<open>trace\<close> is the list
  of effects so far, oldest first.\<close>

record Modem_Power =
  requested :: Requested
  state :: State
  startup_seconds :: "32 word"
  shutdown_seconds :: "32 word"
  status_reads :: nat
  trace :: "Event list"

type_synonym Status_line = "nat \<Rightarrow> bool"

text \<open>Modelled from the spec: the configuration node. \<open>Xml_node\<close> and its
  \<open>has_attribute\<close> and \<open>attribute_value\<close> belong to the Genode base framework and are
  not part of this repository; the spec describes the node as a record with an optional
  boolean \<open>power\<close> and an optional boolean \<open>at_protocol\<close>, \<open>attribute_value\<close> giving
  the default where the attribute is absent. An attribute that is present holds a
  boolean; a node has no attribute of any other name.\<close>

record Xml_node =
  attr_power :: "bool option"
  attr_at_protocol :: "bool option"

text \<open>Modelled from the spec: the lookup of an attribute by name, and the framework's
  \<open>has_attribute\<close> and \<open>attribute_value\<close> on top of it.\<close>

definition attr :: "Xml_node \<Rightarrow> string \<Rightarrow> bool option" where
  "attr config name =
     (if name = ''power'' then attr_power config
      else if name = ''at_protocol'' then attr_at_protocol config
      else None)"

definition has_attribute :: "Xml_node \<Rightarrow> string \<Rightarrow> bool" where
  "has_attribute config name = (attr config name \<noteq> None)"

definition attribute_value :: "Xml_node \<Rightarrow> string \<Rightarrow> bool \<Rightarrow> bool" where
  "attribute_value config name dflt = (case attr config name of None \<Rightarrow> dflt | Some b \<Rightarrow> b)"

subsection \<open>Effects\<close>

definition emit :: "Event \<Rightarrow> Modem_Power \<Rightarrow> Modem_Power" where
  "emit e p = p\<lparr>trace := trace p @ [e]\<rparr>"

definition pin_state :: "Pin \<Rightarrow> bool \<Rightarrow> Modem_Power \<Rightarrow> Modem_Power" where
  "pin_state pin b p = emit (Pin_write pin b) p"

definition msleep :: "nat \<Rightarrow> Modem_Power \<Rightarrow> Modem_Power" where
  "msleep ms p = emit (Msleep ms) p"

definition log :: "string \<Rightarrow> Modem_Power \<Rightarrow> Modem_Power" where
  "log s p = emit (Log s) p"

text \<open>\<open>_pin_status.state()\<close>: the level of the status line at this read; the read is
  counted.\<close>

definition pin_status_state :: "Status_line \<Rightarrow> Modem_Power \<Rightarrow> bool \<times> Modem_Power" where
  "pin_status_state st p = (st (status_reads p), p\<lparr>status_reads := Suc (status_reads p)\<rparr>)"

subsection \<open>Operations\<close>

definition update_state_from_pin_status :: "Status_line \<Rightarrow> Modem_Power \<Rightarrow> Modem_Power" where
  "update_state_from_pin_status st p =
     (let (b, p) = pin_status_state st p
      in p\<lparr>state := (if b then State.OFF else State.ON)\<rparr>)"

definition drive_power_up :: "Status_line \<Rightarrow> Modem_Power \<Rightarrow> Modem_Power" where
  "drive_power_up st p0 =
     (let p = (if state p0 = UNKNOWN then update_state_from_pin_status st p0 else p0)
      in case state p of
           State.OFF \<Rightarrow>
             (let p = log ''Powering up modem ...'' p;
                  p = pin_state Pin_pwrkey True p;
                  p = msleep 1000 p;
                  p = pin_state Pin_pwrkey False p;
                  p = p\<lparr>startup_seconds := 0\<rparr>
              in p\<lparr>state := STARTING_UP\<rparr>)
         | STARTING_UP \<Rightarrow>
             (let p = p\<lparr>startup_seconds := startup_seconds p + 1\<rparr>;
                  (b, p) = pin_status_state st p
              in if b = False then p\<lparr>state := State.ON\<rparr> else p)
         | UNKNOWN \<Rightarrow> p
         | State.ON \<Rightarrow> p
         | SHUTTING_DOWN \<Rightarrow> p)"

definition shutdown_triggered :: "Modem_Power \<Rightarrow> Modem_Power" where
  "shutdown_triggered p = (let p = p\<lparr>shutdown_seconds := 0\<rparr> in p\<lparr>state := SHUTTING_DOWN\<rparr>)"

definition drive_power_down :: "Status_line \<Rightarrow> Modem_Power \<Rightarrow> Modem_Power" where
  "drive_power_down st p0 =
     (let p = (if state p0 = UNKNOWN then update_state_from_pin_status st p0 else p0);
          pulse = (\<lambda>p.
             let p = pin_state Pin_reset True p;
                 p = pin_state Pin_enable True p;
                 p = log ''Powering down modem ...'' p;
                 p = pin_state Pin_pwrkey True p;
                 p = msleep 1000 p;
                 p = pin_state Pin_pwrkey False p
             in shutdown_triggered p)
      in case state p of
           UNKNOWN \<Rightarrow> p
         | State.OFF \<Rightarrow> p
         | STARTING_UP \<Rightarrow> pulse p
         | State.ON \<Rightarrow> pulse p
         | SHUTTING_DOWN \<Rightarrow>
             (let p = p\<lparr>shutdown_seconds := shutdown_seconds p + 1\<rparr>;
                  (b, p) = pin_status_state st p
              in if b = True then p\<lparr>state := State.OFF\<rparr> else p))"

text \<open>The constructor: the member initialisers, then the fixed bring-up sequence.\<close>

definition Power_ctor :: Modem_Power where
  "Power_ctor =
     (let p = \<lparr>requested = DONT_CARE, state = UNKNOWN, startup_seconds = 0,
               shutdown_seconds = 0, status_reads = 0, trace = []\<rparr>;
          p = pin_state Pin_battery True p;
          p = msleep 30 p;
          p = pin_state Pin_reset False p;
          p = pin_state Pin_host_ready False p;
          p = pin_state Pin_dtr False p;
          p = pin_state Pin_enable False p
      in msleep 30 p)"

definition apply_config :: "Xml_node \<Rightarrow> Modem_Power \<Rightarrow> Modem_Power" where
  "apply_config config p =
     (if \<not> has_attribute config ''power'' then p\<lparr>requested := DONT_CARE\<rparr>
      else
        let p = (if attribute_value config ''power'' False
                 then p\<lparr>requested := Requested.ON\<rparr> else p);
            power_down_without_at_protocol =
              (\<not> attribute_value config ''power'' False \<and>
               \<not> attribute_value config ''at_protocol'' True)
        in if power_down_without_at_protocol then p\<lparr>requested := Requested.OFF\<rparr> else p)"

text \<open>One pass through the body of the \<open>for (;;)\<close> loop of
  \<open>drive_state_transitions\<close>, up to the comparison with \<open>orig_state\<close>.\<close>

definition drive_step :: "Status_line \<Rightarrow> Modem_Power \<Rightarrow> Modem_Power" where
  "drive_step st p =
     (case requested p of
        DONT_CARE \<Rightarrow> p
      | Requested.ON \<Rightarrow> drive_power_up st p
      | Requested.OFF \<Rightarrow> drive_power_down st p)"

text \<open>The loop itself. It has no bound in the source, so it is a partial function:
  \<open>None\<close> stands for a loop that never exits.\<close>

partial_function (option) drive_state_transitions :: "Status_line \<Rightarrow> Modem_Power \<Rightarrow> Modem_Power option" where
  "drive_state_transitions st p =
     (let orig_state = state p;
          p = drive_step st p
      in if orig_state = state p then Some p else drive_state_transitions st p)"

definition needs_update_each_second :: "Modem_Power \<Rightarrow> bool" where
  "needs_update_each_second p = (state p = STARTING_UP \<or> state p = SHUTTING_DOWN)"

text \<open>The report: \<open>Xml_generator\<close> is the list of attributes written so far, oldest
  first; an attribute value is a string or an \<open>unsigned\<close>.\<close>

datatype Xml_value = Str string | Unsigned "32 word"

type_synonym Xml_generator = "(string \<times> Xml_value) list"

definition xml_attribute :: "string \<Rightarrow> Xml_value \<Rightarrow> Xml_generator \<Rightarrow> Xml_generator" where
  "xml_attribute name v xml = xml @ [(name, v)]"

definition power_value :: "State \<Rightarrow> string" where
  "power_value s =
     (case s of
        UNKNOWN \<Rightarrow> ''unknown''
      | State.OFF \<Rightarrow> ''off''
      | STARTING_UP \<Rightarrow> ''starting up''
      | State.ON \<Rightarrow> ''on''
      | SHUTTING_DOWN \<Rightarrow> ''shutting down'')"

definition generate_report :: "Modem_Power \<Rightarrow> Xml_generator \<Rightarrow> Xml_generator" where
  "generate_report p xml0 =
     (let xml = xml_attribute ''power'' (Str (power_value (state p))) xml0;
          xml = (if state p = STARTING_UP
                 then xml_attribute ''startup_seconds'' (Unsigned (startup_seconds p)) xml
                 else xml);
          xml = (if state p = SHUTTING_DOWN
                 then xml_attribute ''shutdown_seconds'' (Unsigned (shutdown_seconds p)) xml
                 else xml)
      in xml)"

subsection \<open>Call sequences and observations\<close>

text \<open>The operations a caller can invoke on a constructed controller that change it,
  and the effect of a sequence of such calls. A call of \<open>drive_state_transitions\<close>
  whose loop does not exit makes the whole sequence \<open>None\<close>.\<close>

datatype Op = Apply_config Xml_node | Drive_state_transitions | Shutdown_triggered

fun call :: "Status_line \<Rightarrow> Op \<Rightarrow> Modem_Power \<Rightarrow> Modem_Power option" where
  "call st (Apply_config config) p = Some (apply_config config p)"
| "call st Drive_state_transitions p = drive_state_transitions st p"
| "call st Shutdown_triggered p = Some (shutdown_triggered p)"

fun calls :: "Status_line \<Rightarrow> Op list \<Rightarrow> Modem_Power \<Rightarrow> Modem_Power option" where
  "calls st [] p = Some p"
| "calls st (op # ops) p =
     (case call st op p of None \<Rightarrow> None | Some p' \<Rightarrow> calls st ops p')"

definition apply_configs :: "Xml_node list \<Rightarrow> Modem_Power \<Rightarrow> Modem_Power" where
  "apply_configs configs p = foldl (\<lambda>p config. apply_config config p) p configs"

text \<open>The effects added between an earlier and a later state of the controller.\<close>

definition events_since :: "Modem_Power \<Rightarrow> Modem_Power \<Rightarrow> Event list" where
  "events_since p p' = drop (length (trace p)) (trace p')"

text \<open>A power-key pulse starts with the power key being asserted.\<close>

definition pulses :: "Event list \<Rightarrow> nat" where
  "pulses evs = length (filter (\<lambda>e. e = Pin_write Pin_pwrkey True) evs)"

definition delays :: "Event list \<Rightarrow> nat" where
  "delays evs = length (filter (\<lambda>e. case e of Msleep ms \<Rightarrow> True | _ \<Rightarrow> False) evs)"

text \<open>The level of a control pin after a list of effects: the value of the last write
  to it, \<open>None\<close> if it was never written.\<close>

fun pin_level :: "Pin \<Rightarrow> Event list \<Rightarrow> bool option" where
  "pin_level pin [] = None"
| "pin_level pin (e # evs) =
     (case pin_level pin evs of
        Some b \<Rightarrow> Some b
      | None \<Rightarrow> (case e of Pin_write q b \<Rightarrow> if q = pin then Some b else None | _ \<Rightarrow> None))"

definition no_deassert :: "Event list \<Rightarrow> bool" where
  "no_deassert evs =
     (Pin_write Pin_reset False \<notin> set evs \<and> Pin_write Pin_enable False \<notin> set evs)"

text \<open>Hardware State matches what Desired Intent implies.\<close>

definition converged :: "Modem_Power \<Rightarrow> bool" where
  "converged p =
     (case requested p of
        DONT_CARE \<Rightarrow> True
      | Requested.ON \<Rightarrow> state p = State.ON
      | Requested.OFF \<Rightarrow> state p = State.OFF)"

text \<open>The edges of Hardware State as the specification lists them.\<close>

definition claimed_edge :: "State \<Rightarrow> State \<Rightarrow> bool" where
  "claimed_edge a b =
     ((a, b) \<in> set [(UNKNOWN, State.OFF), (UNKNOWN, State.ON), (State.OFF, STARTING_UP),
                     (STARTING_UP, State.ON), (State.ON, SHUTTING_DOWN),
                     (SHUTTING_DOWN, State.OFF)])"

text \<open>The edges one pass of the loop body can take.\<close>

definition step_edge :: "State \<Rightarrow> State \<Rightarrow> bool" where
  "step_edge a b =
     ((a, b) \<in> set [(UNKNOWN, State.OFF), (UNKNOWN, State.ON), (UNKNOWN, STARTING_UP),
                     (UNKNOWN, SHUTTING_DOWN), (State.OFF, STARTING_UP),
                     (STARTING_UP, State.ON), (STARTING_UP, SHUTTING_DOWN),
                     (State.ON, SHUTTING_DOWN), (SHUTTING_DOWN, State.OFF)])"

text \<open>Concrete inputs: a status line that reads false (modem on) for the first \<open>k\<close>
  reads and true (modem off) from then on, two configurations, and the fields of the
  controller that a caller can tell apart.\<close>

definition line_on_until :: "nat \<Rightarrow> Status_line" where
  "line_on_until k n = (k \<le> n)"

definition config_on :: Xml_node where
  "config_on = \<lparr>attr_power = Some True, attr_at_protocol = None\<rparr>"

definition config_off :: Xml_node where
  "config_off = \<lparr>attr_power = Some False, attr_at_protocol = Some False\<rparr>"

definition summary :: "Modem_Power \<Rightarrow> Requested \<times> State \<times> 32 word \<times> 32 word" where
  "summary p = (requested p, state p, startup_seconds p, shutdown_seconds p)"

section \<open>Properties\<close>

lemmas config_defs = apply_config_def has_attribute_def attribute_value_def attr_def

lemmas effect_defs = pin_state_def msleep_def log_def emit_def Let_def

lemmas step_defs = drive_step_def drive_power_up_def drive_power_down_def
  update_state_from_pin_status_def pin_status_state_def shutdown_triggered_def effect_defs

lemmas input_defs = config_on_def config_off_def line_on_until_def Power_ctor_def

subsection \<open>The loop of \<open>drive_state_transitions\<close>\<close>

lemma drive_stable:
  "state (drive_step st p) = state p \<Longrightarrow> drive_state_transitions st p = Some (drive_step st p)"
  by (subst drive_state_transitions.simps) (simp add: Let_def)

lemma drive_again:
  "state (drive_step st p) \<noteq> state p \<Longrightarrow>
   drive_state_transitions st p = drive_state_transitions st (drive_step st p)"
  by (subst drive_state_transitions.simps) (simp add: Let_def)

text \<open>The loop exits after the first, second or third pass, at the first pass that
  leaves \<open>state\<close> as it found it.\<close>

lemma drive_unfold3:
  "drive_state_transitions st p = Some (drive_step st p) \<and>
     state (drive_step st p) = state p \<or>
   drive_state_transitions st p = Some (drive_step st (drive_step st p)) \<and>
     state (drive_step st (drive_step st p)) = state (drive_step st p) \<or>
   drive_state_transitions st p = Some (drive_step st (drive_step st (drive_step st p))) \<and>
     state (drive_step st (drive_step st (drive_step st p))) = state (drive_step st (drive_step st p))"
proof (cases "requested p")
  case DONT_CARE
  then show ?thesis by (simp add: drive_stable drive_step_def)
next
  case OFF
  then show ?thesis
    by (cases "state p"; cases "st (status_reads p)"; cases "st (Suc (status_reads p))")
       (simp_all add: drive_stable drive_again step_defs)
next
  case ON
  then show ?thesis
    by (cases "state p"; cases "st (status_reads p)"; cases "st (Suc (status_reads p))")
       (simp_all add: drive_stable drive_again step_defs)
qed

text \<open>Claim C7: for every Desired Intent, every initial Hardware State and every
  sequence of status-line readings, \<open>drive_state_transitions\<close> returns: its loop exits
  after at least one and at most three passes, at a pass that leaves Hardware State
  unchanged.\<close>

theorem drive_state_transitions_terminates:
  "\<exists>n. 1 \<le> n \<and> n \<le> 3 \<and>
       drive_state_transitions st p = Some ((drive_step st ^^ n) p) \<and>
       state ((drive_step st ^^ n) p) = state ((drive_step st ^^ (n - 1)) p)"
proof -
  consider
      "drive_state_transitions st p = Some ((drive_step st ^^ 1) p) \<and>
       state ((drive_step st ^^ 1) p) = state ((drive_step st ^^ (1 - 1)) p)"
    | "drive_state_transitions st p = Some ((drive_step st ^^ 2) p) \<and>
       state ((drive_step st ^^ 2) p) = state ((drive_step st ^^ (2 - 1)) p)"
    | "drive_state_transitions st p = Some ((drive_step st ^^ 3) p) \<and>
       state ((drive_step st ^^ 3) p) = state ((drive_step st ^^ (3 - 1)) p)"
    using drive_unfold3 [of st p] by (auto simp: eval_nat_numeral)
  then show ?thesis
  proof cases
    case 1 then show ?thesis by (intro exI [of _ 1]) simp
  next
    case 2 then show ?thesis by (intro exI [of _ 2]) simp
  next
    case 3 then show ?thesis by (intro exI [of _ 3]) simp
  qed
qed

subsection \<open>Configuration\<close>

lemma requested_apply_config:
  "requested (apply_config config p) =
     (case attr_power config of
        None \<Rightarrow> DONT_CARE
      | Some True \<Rightarrow> Requested.ON
      | Some False \<Rightarrow>
          (if attr_at_protocol config = Some False then Requested.OFF else requested p))"
  by (auto simp: config_defs split: option.splits bool.splits)

lemma apply_configs_snoc:
  "apply_configs (configs @ [config]) p = apply_config config (apply_configs configs p)"
  by (simp add: apply_configs_def)

text \<open>Claim C1 says that a configuration without \<open>power\<close> and with \<open>at_protocol\<close>
  false sets Desired Intent to Off. On a controller that was brought to On, such a
  configuration sets it to Don't-care: the absence of \<open>power\<close> is tested first and
  returns.\<close>

theorem apply_config_absent_power_counterexample:
  "map_option summary
     (calls (line_on_until 1)
        [Apply_config config_on, Drive_state_transitions,
         Apply_config \<lparr>attr_power = None, attr_at_protocol = Some False\<rparr>] Power_ctor)
   = Some (DONT_CARE, State.ON, 0, 0)"
  by (simp add: input_defs config_defs summary_def drive_stable drive_again step_defs)

text \<open>Claim C1, amended: for every configuration whose \<open>power\<close> attribute is present
  and false and whose \<open>at_protocol\<close> attribute is false, \<open>apply_config\<close> sets
  Desired Intent to Off, whatever the Hardware State and the prior intent; for every
  configuration whose \<open>power\<close> attribute is absent it sets Desired Intent to
  Don't-care, whatever \<open>at_protocol\<close> is.\<close>

theorem apply_config_off:
  "(attr_power config = Some False \<and> attr_at_protocol config = Some False
      \<longrightarrow> requested (apply_config config p) = Requested.OFF) \<and>
   (attr_power config = None \<longrightarrow> requested (apply_config config p) = DONT_CARE)"
  by (simp add: requested_apply_config)

theorem apply_config_off_witness:
  "requested (apply_config \<lparr>attr_power = Some False, attr_at_protocol = Some False\<rparr>
                (Power_ctor\<lparr>requested := Requested.ON, state := State.ON\<rparr>)) = Requested.OFF \<and>
   requested (apply_config \<lparr>attr_power = None, attr_at_protocol = Some False\<rparr>
                (Power_ctor\<lparr>requested := Requested.ON, state := State.ON\<rparr>)) = DONT_CARE"
  using apply_config_off [of "\<lparr>attr_power = Some False, attr_at_protocol = Some False\<rparr>"
                       "Power_ctor\<lparr>requested := Requested.ON, state := State.ON\<rparr>"]
        apply_config_off [of "\<lparr>attr_power = None, attr_at_protocol = Some False\<rparr>"
                       "Power_ctor\<lparr>requested := Requested.ON, state := State.ON\<rparr>"]
  by simp

text \<open>Claim C2 says that Desired Intent depends on the last configuration only, and that
  \<open>power\<close> false with \<open>at_protocol\<close> true gives Don't-care. After a configuration with
  \<open>power\<close> true, that configuration leaves the intent On, while on a fresh controller
  it leaves Don't-care.\<close>

theorem apply_config_history_counterexample:
  "requested (apply_configs [\<lparr>attr_power = Some True, attr_at_protocol = None\<rparr>,
                             \<lparr>attr_power = Some False, attr_at_protocol = Some True\<rparr>] Power_ctor)
     = Requested.ON \<and>
   requested (apply_configs [\<lparr>attr_power = Some False, attr_at_protocol = Some True\<rparr>] Power_ctor)
     = DONT_CARE"
  by (simp add: apply_configs_def config_defs Power_ctor_def effect_defs)

text \<open>Claim C2, amended: after every sequence of \<open>apply_config\<close> calls, Desired Intent
  is Don't-care if the last configuration has no \<open>power\<close>, On if its \<open>power\<close> is
  true, Off if its \<open>power\<close> is false and its \<open>at_protocol\<close> is false, and otherwise
  (\<open>power\<close> false, \<open>at_protocol\<close> true or absent) what it was before the last call.
  Hence two sequences ending with the same configuration yield the same intent unless
  that configuration has \<open>power\<close> false with \<open>at_protocol\<close> true or absent.\<close>

theorem apply_configs_last_config:
  "requested (apply_configs (configs @ [config]) p) =
     (case attr_power config of
        None \<Rightarrow> DONT_CARE
      | Some True \<Rightarrow> Requested.ON
      | Some False \<Rightarrow>
          (if attr_at_protocol config = Some False then Requested.OFF
           else requested (apply_configs configs p))) \<and>
   (attr_power config \<noteq> Some False \<or> attr_at_protocol config = Some False \<longrightarrow>
      requested (apply_configs (configs @ [config]) p) =
      requested (apply_configs (configs' @ [config]) p'))"
  by (auto simp: apply_configs_snoc requested_apply_config split: option.splits bool.splits)

theorem apply_configs_last_config_witness:
  "requested (apply_configs ([config_on] @ [\<lparr>attr_power = Some False, attr_at_protocol = None\<rparr>])
       Power_ctor) = Requested.ON \<and>
   requested (apply_configs ([config_on] @ [config_off]) Power_ctor) =
   requested (apply_configs ([] @ [config_off]) (Power_ctor\<lparr>state := State.ON\<rparr>))"
  using apply_configs_last_config [of "[config_on]"
          "\<lparr>attr_power = Some False, attr_at_protocol = None\<rparr>" Power_ctor]
        apply_configs_last_config [of "[config_on]" config_off Power_ctor "[]"
          "Power_ctor\<lparr>state := State.ON\<rparr>"]
  by (simp add: config_on_def config_off_def apply_configs_def requested_apply_config)

subsection \<open>Report\<close>

text \<open>Claim C6: for every Hardware State and counter values, \<open>generate_report\<close>
  appends to the sink a \<open>power\<close> field whose value is the literal string of the state
  (one of "unknown", "off", "starting up", "on", "shutting down"), a
  \<open>startup_seconds\<close> field if and only if the state is Starting-up, a
  \<open>shutdown_seconds\<close> field if and only if the state is Shutting-down, never both
  counters, each field once and no other field.\<close>

theorem generate_report_fields:
  "generate_report p xml = xml @ generate_report p [] \<and>
   distinct (map fst (generate_report p [])) \<and>
   map_of (generate_report p []) ''power'' = Some (Str (power_value (state p))) \<and>
   (power_value (state p) = ''unknown'') = (state p = UNKNOWN) \<and>
   (power_value (state p) = ''off'') = (state p = State.OFF) \<and>
   (power_value (state p) = ''starting up'') = (state p = STARTING_UP) \<and>
   (power_value (state p) = ''on'') = (state p = State.ON) \<and>
   (power_value (state p) = ''shutting down'') = (state p = SHUTTING_DOWN) \<and>
   map_of (generate_report p []) ''startup_seconds'' =
     (if state p = STARTING_UP then Some (Unsigned (startup_seconds p)) else None) \<and>
   map_of (generate_report p []) ''shutdown_seconds'' =
     (if state p = SHUTTING_DOWN then Some (Unsigned (shutdown_seconds p)) else None) \<and>
   (''startup_seconds'' \<in> fst ` set (generate_report p [])) = (state p = STARTING_UP) \<and>
   (''shutdown_seconds'' \<in> fst ` set (generate_report p [])) = (state p = SHUTTING_DOWN) \<and>
   \<not> (''startup_seconds'' \<in> fst ` set (generate_report p []) \<and>
      ''shutdown_seconds'' \<in> fst ` set (generate_report p [])) \<and>
   fst ` set (generate_report p []) \<subseteq> {''power'', ''startup_seconds'', ''shutdown_seconds''}"
  by (cases "state p") (simp_all add: generate_report_def xml_attribute_def power_value_def Let_def)

subsection \<open>Polarity of the status line\<close>

text \<open>Claim C8: the status line is read inverted everywhere. Resolving Unknown gives
  Off for a reading of true and On for a reading of false, and both drive functions
  resolve Unknown by exactly this; from Starting-up the power-up step moves to On
  exactly when the line reads false, and from Shutting-down the power-down step moves to
  Off exactly when the line reads true.\<close>

theorem status_line_polarity:
  "state (update_state_from_pin_status st p) =
     (if st (status_reads p) then State.OFF else State.ON) \<and>
   (state p = UNKNOWN \<longrightarrow>
      drive_power_up st p = drive_power_up st (update_state_from_pin_status st p) \<and>
      drive_power_down st p = drive_power_down st (update_state_from_pin_status st p)) \<and>
   (state p = STARTING_UP \<longrightarrow>
      state (drive_power_up st p) = (if st (status_reads p) then STARTING_UP else State.ON)) \<and>
   (state p = SHUTTING_DOWN \<longrightarrow>
      state (drive_power_down st p) = (if st (status_reads p) then State.OFF else SHUTTING_DOWN))"
  by (simp add: update_state_from_pin_status_def pin_status_state_def drive_power_up_def
        drive_power_down_def Let_def)

theorem status_line_polarity_witness:
  "state (update_state_from_pin_status (line_on_until 1) Power_ctor) = State.ON \<and>
   state (drive_power_up (line_on_until 1) (Power_ctor\<lparr>state := STARTING_UP\<rparr>)) = State.ON \<and>
   state (drive_power_down (line_on_until 0) (Power_ctor\<lparr>state := SHUTTING_DOWN\<rparr>)) = State.OFF \<and>
   drive_power_up (line_on_until 1) Power_ctor =
     drive_power_up (line_on_until 1) (update_state_from_pin_status (line_on_until 1) Power_ctor)"
  using status_line_polarity [of "line_on_until 1" Power_ctor]
        status_line_polarity [of "line_on_until 1" "Power_ctor\<lparr>state := STARTING_UP\<rparr>"]
        status_line_polarity [of "line_on_until 0" "Power_ctor\<lparr>state := SHUTTING_DOWN\<rparr>"]
  by (simp add: input_defs effect_defs)

subsection \<open>Single calls of \<open>drive_state_transitions\<close>\<close>

lemma drive_off_on:
  assumes "requested p = Requested.ON" "state p = State.OFF"
  shows "drive_state_transitions st p =
     Some (p\<lparr>state := (if st (status_reads p) then STARTING_UP else State.ON),
             startup_seconds := 1,
             status_reads := Suc (status_reads p),
             trace := trace p @ [Log ''Powering up modem ...'', Pin_write Pin_pwrkey True,
                                 Msleep 1000, Pin_write Pin_pwrkey False]\<rparr>)"
  using assms
  by (cases "st (status_reads p)") (simp_all add: drive_stable drive_again step_defs)

text \<open>Claim C3 says that from Off with intent On one call resets both counters to 0 and
  ends in Starting-up. A controller that was powered down with two polls of the status
  line and is then asked to power up is in Off with \<open>shutdown_seconds = 2\<close>; the next
  call leaves \<open>shutdown_seconds\<close> at 2 and \<open>startup_seconds\<close> at 1.\<close>

theorem drive_off_on_counterexample:
  "map_option summary
     (calls (line_on_until 2)
        [Apply_config config_off, Drive_state_transitions, Drive_state_transitions,
         Apply_config config_on] Power_ctor) = Some (Requested.ON, State.OFF, 0, 2) \<and>
   map_option summary
     (calls (line_on_until 2)
        [Apply_config config_off, Drive_state_transitions, Drive_state_transitions,
         Apply_config config_on, Drive_state_transitions] Power_ctor)
     = Some (Requested.ON, STARTING_UP, 1, 2)"
  by (simp add: input_defs config_defs summary_def drive_stable drive_again step_defs)

text \<open>Claim C3, amended: starting from Hardware State Off with Desired Intent On, a
  single \<open>drive_state_transitions\<close> call returns, issues exactly one power-key pulse
  (log line, assert power-key, blocking delay of 1000 ms, deassert) and nothing else,
  sets \<open>startup_seconds\<close> to 1 (reset to 0 by the pulse, then incremented by the
  Starting-up pass that follows in the same call), leaves \<open>shutdown_seconds\<close>
  unchanged, and ends in Starting-up if the status line reads true at that pass and in On
  if it reads false.\<close>

theorem drive_from_off_requested_on:
  assumes "requested p = Requested.ON" and "state p = State.OFF"
  shows "\<exists>p'. drive_state_transitions st p = Some p' \<and>
     events_since p p' = [Log ''Powering up modem ...'', Pin_write Pin_pwrkey True,
                          Msleep 1000, Pin_write Pin_pwrkey False] \<and>
     pulses (events_since p p') = 1 \<and>
     state p' = (if st (status_reads p) then STARTING_UP else State.ON) \<and>
     startup_seconds p' = 1 \<and>
     shutdown_seconds p' = shutdown_seconds p \<and>
     requested p' = requested p"
  by (simp add: drive_off_on [OF assms] events_since_def pulses_def)

theorem drive_from_off_requested_on_witness:
  "\<exists>p'. drive_state_transitions (line_on_until 0)
          (Power_ctor\<lparr>requested := Requested.ON, state := State.OFF,
                       shutdown_seconds := 2\<rparr>) = Some p' \<and>
        pulses (events_since (Power_ctor\<lparr>requested := Requested.ON, state := State.OFF,
                       shutdown_seconds := 2\<rparr>) p') = 1 \<and>
        state p' = STARTING_UP \<and> startup_seconds p' = 1 \<and> shutdown_seconds p' = 2"
  using drive_from_off_requested_on [of "Power_ctor\<lparr>requested := Requested.ON, state := State.OFF,
                       shutdown_seconds := 2\<rparr>" "line_on_until 0"]
  by (auto simp: input_defs effect_defs)

text \<open>Claim C4 lists six edges. A controller that is starting up and is then configured
  to power down moves from Starting-up to Shutting-down in one pass, which is none of
  them.\<close>

theorem step_edge_counterexample:
  "map_option state
     (calls (line_on_until 0)
        [Apply_config config_on, Drive_state_transitions, Apply_config config_off]
        Power_ctor) = Some STARTING_UP \<and>
   map_option (state \<circ> drive_step (line_on_until 0))
     (calls (line_on_until 0)
        [Apply_config config_on, Drive_state_transitions, Apply_config config_off]
        Power_ctor) = Some SHUTTING_DOWN \<and>
   \<not> claimed_edge STARTING_UP SHUTTING_DOWN"
  by (simp add: input_defs config_defs claimed_edge_def drive_stable drive_again step_defs)

text \<open>Claim C4, amended: each pass of the loop of \<open>drive_state_transitions\<close> either
  leaves Hardware State unchanged or changes it along one of the edges Unknown to Off,
  Unknown to On, Unknown to Starting-up, Unknown to Shutting-down, Off to Starting-up,
  Starting-up to On, Starting-up to Shutting-down, On to Shutting-down, Shutting-down to
  Off (Unknown is resolved to Off or On and acted upon within the same pass).\<close>

theorem drive_step_edges:
  "state (drive_step st p) = state p \<or> step_edge (state p) (state (drive_step st p))"
  by (cases "requested p"; cases "state p"; cases "st (status_reads p)")
     (simp_all add: step_defs step_edge_def)

text \<open>Claim C9: every single \<open>drive_state_transitions\<close> call, whatever the initial
  state, the intent and the status-line readings, returns having issued at most one
  power-key pulse and at most one blocking delay.\<close>

theorem drive_at_most_one_pulse:
  "\<exists>p'. drive_state_transitions st p = Some p' \<and>
        trace p' = trace p @ events_since p p' \<and>
        pulses (events_since p p') \<le> 1 \<and> delays (events_since p p') \<le> 1"
  by (cases "requested p"; cases "state p"; cases "st (status_reads p)";
      cases "st (Suc (status_reads p))")
     (simp_all add: drive_stable drive_again step_defs pulses_def delays_def events_since_def)

lemma drive_converged:
  "converged p \<Longrightarrow> drive_state_transitions st p = Some p"
  by (cases "requested p") (simp_all add: converged_def drive_stable step_defs)

text \<open>Claim C5: once Hardware State matches what Desired Intent implies, a
  \<open>drive_state_transitions\<close> call, and any number of them in a row, returns the
  controller as it was: no pin write, no delay, no log line, no read of the status line,
  no change of state or counters.\<close>

theorem drive_converged_noop:
  assumes "converged p"
  shows "drive_state_transitions st p = Some p \<and>
         calls st (replicate n Drive_state_transitions) p = Some p"
proof
  show d: "drive_state_transitions st p = Some p"
    using assms by (rule drive_converged)
  show "calls st (replicate n Drive_state_transitions) p = Some p"
    by (induction n) (simp_all add: d)
qed

theorem drive_converged_noop_witness:
  "converged (Power_ctor\<lparr>requested := Requested.ON, state := State.ON\<rparr>) \<and>
   drive_state_transitions (line_on_until 1)
     (Power_ctor\<lparr>requested := Requested.ON, state := State.ON\<rparr>) =
     Some (Power_ctor\<lparr>requested := Requested.ON, state := State.ON\<rparr>) \<and>
   calls (line_on_until 1) (replicate 3 Drive_state_transitions)
     (Power_ctor\<lparr>requested := Requested.ON, state := State.ON\<rparr>) =
     Some (Power_ctor\<lparr>requested := Requested.ON, state := State.ON\<rparr>)"
proof -
  have c: "converged (Power_ctor\<lparr>requested := Requested.ON, state := State.ON\<rparr>)"
    by (simp add: converged_def)
  show ?thesis
    using c drive_converged_noop [OF c, of "line_on_until 1" 3] by simp
qed

subsection \<open>The reset and RF-enable lines\<close>

lemma no_deassert_append:
  "no_deassert (xs @ ys) = (no_deassert xs \<and> no_deassert ys)"
  by (auto simp: no_deassert_def)

lemma step_no_deassert:
  "\<exists>d. trace (drive_step st p) = trace p @ d \<and> no_deassert d"
  by (cases "requested p"; cases "state p"; cases "st (status_reads p)")
     (simp_all add: step_defs no_deassert_def)

lemma funpow_no_deassert:
  "\<exists>d. trace ((drive_step st ^^ n) p) = trace p @ d \<and> no_deassert d"
proof (induction n)
  case 0
  show ?case by (simp add: no_deassert_def)
next
  case (Suc n)
  then obtain d where d: "trace ((drive_step st ^^ n) p) = trace p @ d" "no_deassert d"
    by blast
  obtain e where e: "trace (drive_step st ((drive_step st ^^ n) p)) =
      trace ((drive_step st ^^ n) p) @ e" "no_deassert e"
    using step_no_deassert by blast
  have "trace ((drive_step st ^^ Suc n) p) = trace p @ (d @ e)"
    using d e by simp
  moreover have "no_deassert (d @ e)"
    using d e by (simp add: no_deassert_append)
  ultimately show ?case by blast
qed

lemma drive_no_deassert:
  "\<exists>p' d. drive_state_transitions st p = Some p' \<and> trace p' = trace p @ d \<and> no_deassert d"
proof -
  obtain n where "drive_state_transitions st p = Some ((drive_step st ^^ n) p)"
    using drive_unfold3 [of st p]
    by (metis funpow_0 funpow.simps(2) comp_apply)
  then show ?thesis
    using funpow_no_deassert [where st = st and n = n and p = p] by auto
qed

lemma call_no_deassert:
  "\<exists>p' d. call st op p = Some p' \<and> trace p' = trace p @ d \<and> no_deassert d"
proof (cases op)
  case (Apply_config config)
  then show ?thesis by (simp add: config_defs no_deassert_def)
next
  case Drive_state_transitions
  then show ?thesis using drive_no_deassert by simp
next
  case Shutdown_triggered
  then show ?thesis by (simp add: shutdown_triggered_def no_deassert_def)
qed

lemma calls_no_deassert:
  "\<exists>p' d. calls st ops p = Some p' \<and> trace p' = trace p @ d \<and> no_deassert d"
proof (induction ops arbitrary: p)
  case Nil
  show ?case by (simp add: no_deassert_def)
next
  case (Cons op ops)
  obtain p1 d1 where 1: "call st op p = Some p1" "trace p1 = trace p @ d1" "no_deassert d1"
    using call_no_deassert by blast
  obtain p2 d2 where 2: "calls st ops p1 = Some p2" "trace p2 = trace p1 @ d2" "no_deassert d2"
    using Cons.IH by blast
  have "calls st (op # ops) p = Some p2" using 1 2 by simp
  moreover have "trace p2 = trace p @ (d1 @ d2)" using 1 2 by simp
  moreover have "no_deassert (d1 @ d2)" using 1 2 by (simp add: no_deassert_append)
  ultimately show ?case by blast
qed

lemma pin_level_append:
  "pin_level pin (xs @ ys) =
     (case pin_level pin ys of Some b \<Rightarrow> Some b | None \<Rightarrow> pin_level pin xs)"
  by (induction xs) (auto split: option.splits)

lemma pin_level_written:
  "pin_level pin evs = Some b \<Longrightarrow> Pin_write pin b \<in> set evs"
  by (induction evs) (auto split: option.splits Event.splits if_splits)

lemma pin_level_None:
  "pin_level pin evs = None \<Longrightarrow> Pin_write pin b \<notin> set evs"
  by (induction evs) (auto split: option.splits Event.splits if_splits)

lemma pin_level_asserted:
  assumes "Pin_write pin False \<notin> set evs" "Pin_write pin True \<in> set evs"
  shows "pin_level pin evs = Some True"
proof (cases "pin_level pin evs")
  case None
  then show ?thesis using assms(2) pin_level_None by blast
next
  case (Some b)
  then have "Pin_write pin b \<in> set evs" by (rule pin_level_written)
  then have "b" using assms(1) by (cases b) auto
  then show ?thesis using Some by simp
qed

lemma trace_ctor:
  "trace Power_ctor =
     [Pin_write Pin_battery True, Msleep 30, Pin_write Pin_reset False,
      Pin_write Pin_host_ready False, Pin_write Pin_dtr False, Pin_write Pin_enable False,
      Msleep 30]"
  by (simp add: Power_ctor_def effect_defs)

lemma stays_asserted:
  assumes "Pin_write pin True \<notin> set c" "Pin_write pin False \<notin> set d"
    and "Pin_write pin True \<in> set (take i (c @ d))"
  shows "pin_level pin (take i (c @ d)) = Some True"
proof -
  have "Pin_write pin True \<notin> set (take i c)"
    using assms(1) by (meson in_set_takeD)
  then have in_d: "Pin_write pin True \<in> set (take (i - length c) d)"
    using assms(3) by auto
  have "Pin_write pin False \<notin> set (take (i - length c) d)"
    using assms(2) by (meson in_set_takeD)
  then have "pin_level pin (take (i - length c) d) = Some True"
    using in_d by (rule pin_level_asserted)
  then show ?thesis by (simp add: pin_level_append)
qed

lemma power_down_asserts:
  "state q = STARTING_UP \<or> state q = State.ON \<Longrightarrow>
   take 2 (events_since q (drive_power_down st q)) =
     [Pin_write Pin_reset True, Pin_write Pin_enable True]"
  by (auto simp: events_since_def step_defs)

text \<open>Claim C10: construction leaves the reset and RF-enable lines deasserted; the
  power-down pulse starts by asserting both; and no sequence of calls on the constructed
  controller ever writes false to either line, so that at every point of every execution
  after which reset (RF-enable) has been asserted, in particular at a power-up pulse
  following a power-down, the line is still asserted.\<close>

theorem reset_enable_stay_asserted:
  "pin_level Pin_reset (trace Power_ctor) = Some False \<and>
   pin_level Pin_enable (trace Power_ctor) = Some False \<and>
   (state q = STARTING_UP \<or> state q = State.ON \<longrightarrow>
      take 2 (events_since q (drive_power_down st q)) =
        [Pin_write Pin_reset True, Pin_write Pin_enable True]) \<and>
   (\<exists>p. calls st ops Power_ctor = Some p \<and>
       no_deassert (events_since Power_ctor p) \<and>
       (\<forall>i. Pin_write Pin_reset True \<in> set (take i (trace p)) \<longrightarrow>
            pin_level Pin_reset (take i (trace p)) = Some True) \<and>
       (\<forall>i. Pin_write Pin_enable True \<in> set (take i (trace p)) \<longrightarrow>
            pin_level Pin_enable (take i (trace p)) = Some True))"
proof -
  obtain p d where p: "calls st ops Power_ctor = Some p"
      "trace p = trace Power_ctor @ d" "no_deassert d"
    using calls_no_deassert by blast
  have 0: "pin_level Pin_reset (trace Power_ctor) = Some False"
      "pin_level Pin_enable (trace Power_ctor) = Some False"
    by (simp_all add: trace_ctor)
  have 1: "no_deassert (events_since Power_ctor p)"
    using p by (simp add: events_since_def)
  have c1: "Pin_write Pin_reset True \<notin> set (trace Power_ctor)"
    and c2: "Pin_write Pin_enable True \<notin> set (trace Power_ctor)"
    by (simp_all add: trace_ctor)
  have d1: "Pin_write Pin_reset False \<notin> set d" and d2: "Pin_write Pin_enable False \<notin> set d"
    using p(3) by (simp_all add: no_deassert_def)
  have 2: "pin_level Pin_reset (take i (trace p)) = Some True"
    if "Pin_write Pin_reset True \<in> set (take i (trace p))" for i
    using stays_asserted [OF c1 d1] that p(2) by simp
  have 3: "pin_level Pin_enable (take i (trace p)) = Some True"
    if "Pin_write Pin_enable True \<in> set (take i (trace p))" for i
    using stays_asserted [OF c2 d2] that p(2) by simp
  have 4: "\<exists>p. calls st ops Power_ctor = Some p \<and>
       no_deassert (events_since Power_ctor p) \<and>
       (\<forall>i. Pin_write Pin_reset True \<in> set (take i (trace p)) \<longrightarrow>
            pin_level Pin_reset (take i (trace p)) = Some True) \<and>
       (\<forall>i. Pin_write Pin_enable True \<in> set (take i (trace p)) \<longrightarrow>
            pin_level Pin_enable (take i (trace p)) = Some True)"
    using p(1) 1 2 3 by blast
  show ?thesis using 0 4 power_down_asserts [of q st] by blast
qed

theorem reset_enable_stay_asserted_witness:
  "take 2 (events_since (Power_ctor\<lparr>state := State.ON\<rparr>)
             (drive_power_down (line_on_until 1) (Power_ctor\<lparr>state := State.ON\<rparr>))) =
     [Pin_write Pin_reset True, Pin_write Pin_enable True] \<and>
   (\<exists>p. calls (line_on_until 1)
          [Apply_config config_off, Drive_state_transitions,
           Apply_config config_on, Drive_state_transitions] Power_ctor = Some p \<and>
       trace p ! 9 = Log ''Powering down modem ...'' \<and>
       trace p ! 13 = Log ''Powering up modem ...'' \<and>
       trace p ! 14 = Pin_write Pin_pwrkey True \<and>
       Pin_write Pin_reset True \<in> set (take 14 (trace p)) \<and>
       Pin_write Pin_enable True \<in> set (take 14 (trace p)) \<and>
       pin_level Pin_reset (take 14 (trace p)) = Some True \<and>
       pin_level Pin_enable (take 14 (trace p)) = Some True)"
proof -
  let ?ops = "[Apply_config config_off, Drive_state_transitions,
               Apply_config config_on, Drive_state_transitions]"
  let ?t = "[Pin_write Pin_battery True, Msleep 30, Pin_write Pin_reset False,
      Pin_write Pin_host_ready False, Pin_write Pin_dtr False, Pin_write Pin_enable False,
      Msleep 30,
      Pin_write Pin_reset True, Pin_write Pin_enable True, Log ''Powering down modem ...'',
      Pin_write Pin_pwrkey True, Msleep 1000, Pin_write Pin_pwrkey False,
      Log ''Powering up modem ...'',
      Pin_write Pin_pwrkey True, Msleep 1000, Pin_write Pin_pwrkey False]"
  have run: "map_option trace (calls (line_on_until 1) ?ops Power_ctor) = Some ?t"
    by (simp add: input_defs config_defs drive_stable drive_again step_defs)
  obtain p where p: "calls (line_on_until 1) ?ops Power_ctor = Some p"
    and r: "\<forall>i. Pin_write Pin_reset True \<in> set (take i (trace p)) \<longrightarrow>
            pin_level Pin_reset (take i (trace p)) = Some True"
    and e: "\<forall>i. Pin_write Pin_enable True \<in> set (take i (trace p)) \<longrightarrow>
            pin_level Pin_enable (take i (trace p)) = Some True"
    using reset_enable_stay_asserted [of "Power_ctor\<lparr>state := State.ON\<rparr>" "line_on_until 1" ?ops]
    by blast
  have pd: "take 2 (events_since (Power_ctor\<lparr>state := State.ON\<rparr>)
                (drive_power_down (line_on_until 1) (Power_ctor\<lparr>state := State.ON\<rparr>))) =
        [Pin_write Pin_reset True, Pin_write Pin_enable True]"
    using reset_enable_stay_asserted [of "Power_ctor\<lparr>state := State.ON\<rparr>" "line_on_until 1" ?ops]
    by simp
  have t: "trace p = ?t"
    using run p by simp
  have hr: "Pin_write Pin_reset True \<in> set (take 14 (trace p))"
    and he: "Pin_write Pin_enable True \<in> set (take 14 (trace p))"
    by (simp_all add: t)
  have "trace p ! 9 = Log ''Powering down modem ...''"
    and "trace p ! 13 = Log ''Powering up modem ...''"
    and "trace p ! 14 = Pin_write Pin_pwrkey True"
    by (simp_all add: t)
  then have "\<exists>p. calls (line_on_until 1) ?ops Power_ctor = Some p \<and>
       trace p ! 9 = Log ''Powering down modem ...'' \<and>
       trace p ! 13 = Log ''Powering up modem ...'' \<and>
       trace p ! 14 = Pin_write Pin_pwrkey True \<and>
       Pin_write Pin_reset True \<in> set (take 14 (trace p)) \<and>
       Pin_write Pin_enable True \<in> set (take 14 (trace p)) \<and>
       pin_level Pin_reset (take 14 (trace p)) = Some True \<and>
       pin_level Pin_enable (take 14 (trace p)) = Some True"
    using p hr he r e by blast
  then show ?thesis using pd by blast
qed

end
